theory Spec2Isabelle
  imports Main "HOL-Library.AList"
begin

section \<open>Decimal integers\<close>

text \<open>
  The decimal text of an integer, as JavaScript writes an integer-valued number into a
  string and as the store writes a counter, and its reading back. \<open>read_int\<close> accepts the
  canonical form only (no sign for 0, no leading zero, no blank), which is what the store
  accepts as the operand of an increment.
\<close>

definition digit_char :: "nat \<Rightarrow> char" where
  "digit_char d = char_of (48 + d)"

definition is_digit :: "char \<Rightarrow> bool" where
  "is_digit c \<longleftrightarrow> 48 \<le> (of_char c :: nat) \<and> (of_char c :: nat) \<le> 57"

definition digit_val :: "char \<Rightarrow> nat" where
  "digit_val c = of_char c - 48"

fun show_nat :: "nat \<Rightarrow> string" where
  "show_nat n = (if n < 10 then [digit_char n] else show_nat (n div 10) @ [digit_char (n mod 10)])"

declare show_nat.simps [simp del]

definition show_int :: "int \<Rightarrow> string" where
  "show_int i = (if i < 0 then CHR ''-'' # show_nat (nat (- i)) else show_nat (nat i))"

definition read_nat :: "string \<Rightarrow> nat" where
  "read_nat ds = foldl (\<lambda>a c. 10 * a + digit_val c) 0 ds"

definition read_int :: "string \<Rightarrow> int option" where
  "read_int s =
     (let ds = (if s \<noteq> [] \<and> hd s = CHR ''-'' then tl s else s);
          n = int (read_nat ds);
          i = (if s \<noteq> [] \<and> hd s = CHR ''-'' then - n else n)
      in if ds \<noteq> [] \<and> list_all is_digit ds \<and> show_int i = s then Some i else None)"

text \<open>
  Two ranges: the integers a JavaScript number holds exactly (and writes in plain decimal),
  and the signed 64-bit integers of the store.
\<close>

definition safe_integer :: "int \<Rightarrow> bool" where
  "safe_integer i \<longleftrightarrow> - 9007199254740991 \<le> i \<and> i \<le> 9007199254740991"

definition int64 :: "int \<Rightarrow> bool" where
  "int64 i \<longleftrightarrow> - 9223372036854775808 \<le> i \<and> i \<le> 9223372036854775807"

section \<open>JSON values, \<open>JSON.stringify\<close> and \<open>JSON.parse\<close>\<close>

text \<open>
  The values that travel through the cache. Strings are byte strings (the UTF-8 text the
  store holds). \<open>JNum\<close> is a number that is an integer JavaScript holds exactly; \<open>JDec\<close>
  is any other number, kept by its decimal text (its double value is not computed): one
  written with a fraction or an exponent, or an integer beyond the exact range. An object
  is the list of its members in enumeration order: the names that are array indices first,
  in ascending order, then the other names in the order they were added.

  \<open>stringify\<close> follows \<open>JSON.stringify\<close>: no blanks, members and elements separated by
  commas, strings quoted with the quote, the backslash and the control characters
  escaped. \<open>json_parse\<close> follows \<open>JSON.parse\<close>: one value with blanks allowed around every
  token, the escapes of the JSON grammar, no leading zero in a number, nothing but blanks
  after the value, for a member name that occurs twice the last value in the place of the
  first, and the members of an object in enumeration order. A four-digit hexadecimal
  escape yields the UTF-8 bytes of its code point; the escapes of a high and a low
  surrogate in a row yield the four bytes of the code point the pair stands for; a
  surrogate escape without its partner, which no UTF-8 text holds, is kept as the three
  bytes the same scheme gives its code unit. The parser is a recursive descent over the
  text; the nesting of calls is bounded by fuel, which \<open>json_parse\<close> supplies in proportion
  to the length of the text.
\<close>

datatype json =
    JNull
  | JBool bool
  | JNum int
  | JDec string
  | JStr string
  | JArr "json list"
  | JObj "(string \<times> json) list"

definition hex_char :: "nat \<Rightarrow> char" where
  "hex_char d = (if d < 10 then char_of (48 + d) else char_of (87 + d))"

definition hex_val :: "char \<Rightarrow> nat option" where
  "hex_val c =
     (let n = (of_char c :: nat)
      in if 48 \<le> n \<and> n \<le> 57 then Some (n - 48)
         else if 97 \<le> n \<and> n \<le> 102 then Some (n - 87)
         else if 65 \<le> n \<and> n \<le> 70 then Some (n - 55)
         else None)"

definition escape_char :: "char \<Rightarrow> string" where
  "escape_char c =
     (if c = CHR 0x22 then [CHR 0x5C, CHR 0x22]
      else if c = CHR 0x5C then [CHR 0x5C, CHR 0x5C]
      else if c = CHR 0x08 then [CHR 0x5C, CHR ''b'']
      else if c = CHR 0x0C then [CHR 0x5C, CHR ''f'']
      else if c = CHR 0x0A then [CHR 0x5C, CHR ''n'']
      else if c = CHR 0x0D then [CHR 0x5C, CHR ''r'']
      else if c = CHR 0x09 then [CHR 0x5C, CHR ''t'']
      else if (of_char c :: nat) < 32 then
        [CHR 0x5C, CHR ''u'', CHR ''0'', CHR ''0'',
         hex_char (of_char c div 16), hex_char (of_char c mod 16)]
      else [c])"

definition quote :: "string \<Rightarrow> string" where
  "quote s = CHR 0x22 # concat (map escape_char s) @ [CHR 0x22]"

fun join :: "string \<Rightarrow> string list \<Rightarrow> string" where
  "join sep [] = []"
| "join sep [x] = x"
| "join sep (x # y # ys) = x @ sep @ join sep (y # ys)"

fun stringify :: "json \<Rightarrow> string" where
  "stringify JNull = ''null''"
| "stringify (JBool b) = (if b then ''true'' else ''false'')"
| "stringify (JNum n) = show_int n"
| "stringify (JDec lit) = lit"
| "stringify (JStr s) = quote s"
| "stringify (JArr xs) = ''['' @ join '','' (map stringify xs) @ '']''"
| "stringify (JObj kvs) =
     ''{'' @ join '','' (map (\<lambda>kv. quote (fst kv) @ '':'' @ stringify (snd kv)) kvs) @ ''}''"

definition is_ws :: "char \<Rightarrow> bool" where
  "is_ws c \<longleftrightarrow> c = CHR 0x20 \<or> c = CHR 0x09 \<or> c = CHR 0x0A \<or> c = CHR 0x0D"

definition skip_ws :: "string \<Rightarrow> string" where
  "skip_ws s = dropWhile is_ws s"

definition utf8 :: "nat \<Rightarrow> string" where
  "utf8 n =
     (if n < 0x80 then [char_of n]
      else if n < 0x800 then [char_of (0xC0 + n div 64), char_of (0x80 + n mod 64)]
      else [char_of (0xE0 + n div 4096), char_of (0x80 + (n div 64) mod 64),
            char_of (0x80 + n mod 64)])"

definition is_high :: "nat \<Rightarrow> bool" where
  "is_high n \<longleftrightarrow> 0xD800 \<le> n \<and> n \<le> 0xDBFF"

definition is_low :: "nat \<Rightarrow> bool" where
  "is_low n \<longleftrightarrow> 0xDC00 \<le> n \<and> n \<le> 0xDFFF"

definition utf8_pair :: "nat \<Rightarrow> nat \<Rightarrow> string" where
  "utf8_pair hi lo =
     (let cp = 0x10000 + (hi - 0xD800) * 0x400 + (lo - 0xDC00)
      in [char_of (0xF0 + cp div 262144), char_of (0x80 + (cp div 4096) mod 64),
          char_of (0x80 + (cp div 64) mod 64), char_of (0x80 + cp mod 64)])"



definition hex4 :: "char \<Rightarrow> char \<Rightarrow> char \<Rightarrow> char \<Rightarrow> nat option" where
  "hex4 a b c d =
     (case (hex_val a, hex_val b, hex_val c, hex_val d) of
        (Some x, Some y, Some z, Some w) \<Rightarrow> Some (((x * 16 + y) * 16 + z) * 16 + w)
      | _ \<Rightarrow> None)"

fun parse_string :: "string \<Rightarrow> string \<Rightarrow> (string \<times> string) option" where
  "parse_string [] acc = None"
| "parse_string (c # cs) acc =
     (if c = CHR 0x22 then Some (acc, cs)
      else if c = CHR 0x5C then
        (case cs of
           [] \<Rightarrow> None
         | e # r \<Rightarrow>
             if e = CHR 0x22 \<or> e = CHR 0x5C \<or> e = CHR ''/'' then parse_string r (acc @ [e])
             else if e = CHR ''b'' then parse_string r (acc @ [CHR 0x08])
             else if e = CHR ''f'' then parse_string r (acc @ [CHR 0x0C])
             else if e = CHR ''n'' then parse_string r (acc @ [CHR 0x0A])
             else if e = CHR ''r'' then parse_string r (acc @ [CHR 0x0D])
             else if e = CHR ''t'' then parse_string r (acc @ [CHR 0x09])
             else if e = CHR ''u'' then
               (case r of
                  h1 # h2 # h3 # h4 # r' \<Rightarrow>
                    (case hex4 h1 h2 h3 h4 of
                       None \<Rightarrow> None
                     | Some n \<Rightarrow>
                         (case r' of
                            b # u # l1 # l2 # l3 # l4 # r'' \<Rightarrow>
                              (case (if is_high n \<and> b = CHR 0x5C \<and> u = CHR ''u''
                                     then hex4 l1 l2 l3 l4 else None) of
                                 None \<Rightarrow> parse_string r' (acc @ utf8 n)
                               | Some lo \<Rightarrow>
                                   if is_low lo then parse_string r'' (acc @ utf8_pair n lo)
                                   else parse_string r' (acc @ utf8 n))
                          | _ \<Rightarrow> parse_string r' (acc @ utf8 n)))
                | _ \<Rightarrow> None)
             else None)
      else if (of_char c :: nat) < 32 then None
      else parse_string cs (acc @ [c]))"

definition frac_part :: "string \<Rightarrow> nat option" where
  "frac_part s =
     (if s \<noteq> [] \<and> hd s = CHR ''.'' then
        (let ds = takeWhile is_digit (tl s)
         in if ds = [] then None else Some (1 + length ds))
      else Some 0)"

definition exp_part :: "string \<Rightarrow> nat option" where
  "exp_part s =
     (if s \<noteq> [] \<and> (hd s = CHR ''e'' \<or> hd s = CHR ''E'') then
        (let t = tl s;
             sg = (if t \<noteq> [] \<and> (hd t = CHR ''+'' \<or> hd t = CHR ''-'') then 1 else 0);
             ds = takeWhile is_digit (drop sg t)
         in if ds = [] then None else Some (1 + sg + length ds))
      else Some 0)"

definition parse_number :: "string \<Rightarrow> (json \<times> string) option" where
  "parse_number s =
     (let neg = (s \<noteq> [] \<and> hd s = CHR ''-'');
          s1 = (if neg then tl s else s);
          ip = (if s1 \<noteq> [] \<and> hd s1 = CHR ''0'' then ''0'' else takeWhile is_digit s1);
          s2 = drop (length ip) s1
      in if ip = [] then None
         else
           (case frac_part s2 of
              None \<Rightarrow> None
            | Some fl \<Rightarrow>
                (case exp_part (drop fl s2) of
                   None \<Rightarrow> None
                 | Some el \<Rightarrow>
                     if fl = 0 \<and> el = 0
                        \<and> safe_integer (if neg then - int (read_nat ip) else int (read_nat ip))
                     then
                       Some (JNum (if neg then - int (read_nat ip) else int (read_nat ip)), s2)
                     else
                       (let n = (if neg then 1 else 0) + length ip + fl + el
                        in Some (JDec (take n s), drop n s)))))"

text \<open>
  The names JavaScript treats as array indices (the decimal text of an integer from 0 to
  4294967294), and the order in which an object enumerates members that were added in
  the order of the list.
\<close>

definition array_index :: "string \<Rightarrow> nat option" where
  "array_index k =
     (if k \<noteq> [] \<and> list_all is_digit k \<and> show_nat (read_nat k) = k \<and> read_nat k < 4294967295
      then Some (read_nat k) else None)"

definition js_order :: "(string \<times> 'a) list \<Rightarrow> (string \<times> 'a) list" where
  "js_order kvs =
     sort_key (\<lambda>kv. the (array_index (fst kv))) (filter (\<lambda>kv. array_index (fst kv) \<noteq> None) kvs)
     @ filter (\<lambda>kv. array_index (fst kv) = None) kvs"

fun parse_value :: "nat \<Rightarrow> string \<Rightarrow> (json \<times> string) option"
  and parse_elems :: "nat \<Rightarrow> string \<Rightarrow> json list \<Rightarrow> (json list \<times> string) option"
  and parse_members ::
    "nat \<Rightarrow> string \<Rightarrow> (string \<times> json) list \<Rightarrow> ((string \<times> json) list \<times> string) option"
where
  "parse_value 0 s = None"
| "parse_value (Suc f) s =
     (case skip_ws s of
        [] \<Rightarrow> None
      | c # cs \<Rightarrow>
          if c = CHR ''{'' then
            (case skip_ws cs of
               [] \<Rightarrow> None
             | d # r \<Rightarrow>
                 if d = CHR ''}'' then Some (JObj [], r)
                 else map_option (apfst (\<lambda>kvs. JObj (js_order kvs))) (parse_members f cs []))
          else if c = CHR ''['' then
            (case skip_ws cs of
               [] \<Rightarrow> None
             | d # r \<Rightarrow>
                 if d = CHR '']'' then Some (JArr [], r)
                 else map_option (apfst JArr) (parse_elems f cs []))
          else if c = CHR 0x22 then map_option (apfst JStr) (parse_string cs [])
          else if c = CHR ''-'' \<or> is_digit c then parse_number (c # cs)
          else if take 4 (c # cs) = ''true'' then Some (JBool True, drop 4 (c # cs))
          else if take 5 (c # cs) = ''false'' then Some (JBool False, drop 5 (c # cs))
          else if take 4 (c # cs) = ''null'' then Some (JNull, drop 4 (c # cs))
          else None)"
| "parse_elems 0 s acc = None"
| "parse_elems (Suc f) s acc =
     (case parse_value f s of
        None \<Rightarrow> None
      | Some (v, r) \<Rightarrow>
          (case skip_ws r of
             [] \<Rightarrow> None
           | d # r' \<Rightarrow>
               if d = CHR '','' then parse_elems f r' (acc @ [v])
               else if d = CHR '']'' then Some (acc @ [v], r')
               else None))"
| "parse_members 0 s acc = None"
| "parse_members (Suc f) s acc =
     (case skip_ws s of
        [] \<Rightarrow> None
      | q # s1 \<Rightarrow>
          if q \<noteq> CHR 0x22 then None
          else
            (case parse_string s1 [] of
               None \<Rightarrow> None
             | Some (k, s2) \<Rightarrow>
                 (case skip_ws s2 of
                    [] \<Rightarrow> None
                  | col # s3 \<Rightarrow>
                      if col \<noteq> CHR '':'' then None
                      else
                        (case parse_value f s3 of
                           None \<Rightarrow> None
                         | Some (v, r) \<Rightarrow>
                             (case skip_ws r of
                                [] \<Rightarrow> None
                              | d # r' \<Rightarrow>
                                  if d = CHR '','' then parse_members f r' (AList.update k v acc)
                                  else if d = CHR ''}'' then Some (AList.update k v acc, r')
                                  else None)))))"

definition json_parse :: "string \<Rightarrow> json option" where
  "json_parse s =
     (case parse_value (2 * length s + 2) s of
        None \<Rightarrow> None
      | Some (v, r) \<Rightarrow> if skip_ws r = [] then Some v else None)"


text \<open>
  The values \<open>JSON.stringify\<close> and \<open>JSON.parse\<close> carry exactly: numbers are integers that
  JavaScript holds exactly, and an object has no two members of one name and lists its
  members in enumeration order.
\<close>

fun json_ok :: "json \<Rightarrow> bool" where
  "json_ok JNull = True"
| "json_ok (JBool b) = True"
| "json_ok (JNum n) = safe_integer n"
| "json_ok (JDec lit) = False"
| "json_ok (JStr s) = True"
| "json_ok (JArr xs) = (\<forall>x \<in> set xs. json_ok x)"
| "json_ok (JObj kvs) =
     (distinct (map fst kvs) \<and> js_order kvs = kvs \<and> (\<forall>kv \<in> set kvs. json_ok (snd kv)))"



section \<open>The key-value store behind the client\<close>

text \<open>
  The remote store as the client sees it: every key holds a string or a hash of
  string fields, with an optional expiry (absolute, in milliseconds of the store's clock).
  A command on a client whose socket is closed is rejected; the other rejections are the
  store's own error replies. The store's integers are signed 64-bit: a counter, an
  increment and an expiry time outside that range are rejected, and so is an increment
  whose sum would leave it. The store has room for what it is given: its limits of memory
  and of the size of a key or a value are not part of this.
\<close>

datatype redis_error =
  NoClient | ConnectionClosed | WrongType | NotAnInteger | Overflow | InvalidExpire | WrongArity

datatype rvalue = RString string | RHash "(string \<times> string) list"

record entry =
  val :: rvalue
  expiry :: "nat option"

record redis_client =
  clock :: nat
  entries :: "string \<Rightarrow> entry option"
  alive :: bool

definition live :: "redis_client \<Rightarrow> string \<Rightarrow> entry option" where
  "live c k =
     (case entries c k of
        None \<Rightarrow> None
      | Some e \<Rightarrow>
          (case expiry e of
             None \<Rightarrow> Some e
           | Some t \<Rightarrow> if clock c < t then Some e else None))"

definition put :: "string \<Rightarrow> entry \<Rightarrow> redis_client \<Rightarrow> redis_client" where
  "put k e c = c\<lparr>entries := (entries c)(k \<mapsto> e)\<rparr>"

definition expire_time :: "redis_client \<Rightarrow> int \<Rightarrow> nat option" where
  "expire_time c ttl =
     (if 0 < ttl \<and> int64 (int (clock c) + ttl * 1000) then Some (clock c + nat ttl * 1000)
      else None)"

definition client_setEx ::
    "string \<Rightarrow> int \<Rightarrow> string \<Rightarrow> redis_client \<Rightarrow> redis_error + (unit \<times> redis_client)" where
  "client_setEx k ttl v c =
     (if \<not> alive c then Inl ConnectionClosed
      else
        (case expire_time c ttl of
           None \<Rightarrow> Inl InvalidExpire
         | Some t \<Rightarrow> Inr ((), put k \<lparr>val = RString v, expiry = Some t\<rparr> c)))"

definition client_get ::
    "string \<Rightarrow> redis_client \<Rightarrow> redis_error + (string option \<times> redis_client)" where
  "client_get k c =
     (if \<not> alive c then Inl ConnectionClosed
      else
        (case live c k of
           None \<Rightarrow> Inr (None, c)
         | Some e \<Rightarrow>
             (case val e of
                RString s \<Rightarrow> Inr (Some s, c)
              | RHash h \<Rightarrow> Inl WrongType)))"

definition client_del ::
    "string list \<Rightarrow> redis_client \<Rightarrow> redis_error + (nat \<times> redis_client)" where
  "client_del ks c =
     (if \<not> alive c then Inl ConnectionClosed
      else if ks = [] then Inl WrongArity
      else Inr (length (filter (\<lambda>k. live c k \<noteq> None) (remdups ks)),
                c\<lparr>entries := (\<lambda>k. if k \<in> set ks then None else entries c k)\<rparr>))"

definition client_expire ::
    "string \<Rightarrow> int \<Rightarrow> redis_client \<Rightarrow> redis_error + (bool \<times> redis_client)" where
  "client_expire k ttl c =
     (if \<not> alive c then Inl ConnectionClosed
      else
        (case live c k of
           None \<Rightarrow> Inr (False, c)
         | Some e \<Rightarrow>
             if ttl \<le> 0 then Inr (True, c\<lparr>entries := (entries c)(k := None)\<rparr>)
             else
               (case expire_time c ttl of
                  None \<Rightarrow> Inl InvalidExpire
                | Some t \<Rightarrow> Inr (True, put k (e\<lparr>expiry := Some t\<rparr>) c))))"

definition client_hSet ::
    "string \<Rightarrow> string \<Rightarrow> string \<Rightarrow> redis_client \<Rightarrow> redis_error + (unit \<times> redis_client)" where
  "client_hSet k f v c =
     (if \<not> alive c then Inl ConnectionClosed
      else
        (case live c k of
           None \<Rightarrow> Inr ((), put k \<lparr>val = RHash [(f, v)], expiry = None\<rparr> c)
         | Some e \<Rightarrow>
             (case val e of
                RString s \<Rightarrow> Inl WrongType
              | RHash h \<Rightarrow> Inr ((), put k (e\<lparr>val := RHash (AList.update f v h)\<rparr>) c))))"

definition client_hGet ::
    "string \<Rightarrow> string \<Rightarrow> redis_client \<Rightarrow> redis_error + (string option \<times> redis_client)" where
  "client_hGet k f c =
     (if \<not> alive c then Inl ConnectionClosed
      else
        (case live c k of
           None \<Rightarrow> Inr (None, c)
         | Some e \<Rightarrow>
             (case val e of
                RString s \<Rightarrow> Inl WrongType
              | RHash h \<Rightarrow> Inr (map_of h f, c))))"

definition client_hGetAll ::
    "string \<Rightarrow> redis_client \<Rightarrow> redis_error + ((string \<times> string) list \<times> redis_client)" where
  "client_hGetAll k c =
     (if \<not> alive c then Inl ConnectionClosed
      else
        (case live c k of
           None \<Rightarrow> Inr ([], c)
         | Some e \<Rightarrow>
             (case val e of
                RString s \<Rightarrow> Inl WrongType
              | RHash h \<Rightarrow> Inr (h, c))))"

definition read_counter :: "string \<Rightarrow> int option" where
  "read_counter s = (case read_int s of None \<Rightarrow> None | Some i \<Rightarrow> if int64 i then Some i else None)"

definition client_incrBy ::
    "string \<Rightarrow> int \<Rightarrow> redis_client \<Rightarrow> redis_error + (int \<times> redis_client)" where
  "client_incrBy k n c =
     (if \<not> alive c then Inl ConnectionClosed
      else if \<not> int64 n then Inl NotAnInteger
      else
        (case live c k of
           None \<Rightarrow> Inr (n, put k \<lparr>val = RString (show_int n), expiry = None\<rparr> c)
         | Some e \<Rightarrow>
             (case val e of
                RHash h \<Rightarrow> Inl WrongType
              | RString s \<Rightarrow>
                  (case read_counter s of
                     None \<Rightarrow> Inl NotAnInteger
                   | Some old \<Rightarrow>
                       if \<not> int64 (old + n) then Inl Overflow
                       else Inr (old + n, put k (e\<lparr>val := RString (show_int (old + n))\<rparr>) c)))))"

text \<open>What a key holds, read as a counter (an absent key counts from 0), and when it expires.\<close>

definition counter_of :: "redis_client \<Rightarrow> string \<Rightarrow> int option" where
  "counter_of c k =
     (case live c k of
        None \<Rightarrow> Some 0
      | Some e \<Rightarrow> (case val e of RString s \<Rightarrow> read_counter s | RHash h \<Rightarrow> None))"

definition expiry_of :: "redis_client \<Rightarrow> string \<Rightarrow> nat option" where
  "expiry_of c k = (case live c k of None \<Rightarrow> None | Some e \<Rightarrow> expiry e)"

section \<open>CacheManager\<close>

text \<open>
  The class \<open>CacheManager\<close> (the second unit of \<^verbatim>\<open>src/utils/errorHandler.js\<close>): the
  client object, absent until \<open>initialize\<close> has created it, and the flag \<open>isConnected\<close>.
  Every operation takes the manager and returns the JavaScript value it resolves to,
  together with the manager afterwards. Each operation first tests the flag and then runs
  its client calls inside \<open>try\<close>; the \<open>catch\<close> branch is the \<open>Inl\<close> case of the client
  call. The numbers an operation takes (\<open>ttl\<close>, \<open>increment\<close>) are JavaScript numbers that
  are integers; an integer reply of the store comes back as a JavaScript number, which is
  \<open>js_integer\<close> of it: the integer itself when JavaScript holds it exactly, and otherwise a
  rounded number, kept as \<open>JDec\<close> with the text of the reply.
\<close>

definition js_integer :: "int \<Rightarrow> json" where
  "js_integer i = (if safe_integer i then JNum i else JDec (show_int i))"

record cache_manager =
  client :: "redis_client option"
  isConnected :: bool

text \<open>
  A call on \<open>this.client\<close>: with no client object the call itself throws; otherwise the
  command runs and the client is left in the state the command produced.
\<close>

definition on_client ::
    "cache_manager \<Rightarrow> (redis_client \<Rightarrow> redis_error + ('a \<times> redis_client))
       \<Rightarrow> redis_error + ('a \<times> cache_manager)" where
  "on_client m cmd =
     (case client m of
        None \<Rightarrow> Inl NoClient
      | Some c \<Rightarrow>
          (case cmd c of
             Inl e \<Rightarrow> Inl e
           | Inr (r, c') \<Rightarrow> Inr (r, m\<lparr>client := Some c'\<rparr>)))"

subsection \<open>The retry strategy and \<open>initialize\<close>\<close>

text \<open>
  The function handed to the client as \<open>retry_strategy\<close>: an \<open>Error\<close> for a refused
  connection and for more than an hour of retrying, \<open>undefined\<close> (here \<open>NoRetry\<close>) after
  attempt 10, otherwise the delay in milliseconds.
\<close>

record retry_error =
  err_code :: "string option"

record retry_options =
  error :: "retry_error option"
  total_retry_time :: nat
  attempt :: nat

datatype retry_decision = RetryError string | NoRetry | RetryAfter nat

definition connection_refused :: "retry_options \<Rightarrow> bool" where
  "connection_refused options \<longleftrightarrow>
     (case error options of None \<Rightarrow> False | Some e \<Rightarrow> err_code e = Some ''ECONNREFUSED'')"

definition retry_strategy :: "retry_options \<Rightarrow> retry_decision" where
  "retry_strategy options =
     (if connection_refused options then RetryError ''Redis server refused connection''
      else if total_retry_time options > 1000 * 60 * 60 then RetryError ''Retry time exhausted''
      else if attempt options > 10 then NoRetry
      else RetryAfter (min (attempt options * 100) 3000))"

datatype attempt_outcome = Succeeds | Fails retry_error

datatype connect_result = Connected | Failed

text \<open>
  Modelled from the spec: the store client's own connect loop, which is library code
  the repository does not contain. Attempts are numbered from 1; a failed attempt hands
  the error, the retry time spent so far and the attempt number to the retry strategy; a
  delay schedules the next attempt, any other answer ends the connection for good.
\<close>

function connect_loop :: "(nat \<Rightarrow> attempt_outcome) \<Rightarrow> nat \<Rightarrow> nat \<Rightarrow> connect_result" where
  "connect_loop env n spent =
     (case env n of
        Succeeds \<Rightarrow> Connected
      | Fails e \<Rightarrow>
          (case retry_strategy \<lparr>error = Some e, total_retry_time = spent, attempt = n\<rparr> of
             RetryAfter d \<Rightarrow> connect_loop env (Suc n) (spent + d)
           | _ \<Rightarrow> Failed))"
  by pat_completeness auto
termination
  by (relation "measure (\<lambda>(env, n, spent). 11 - n)")
     (auto simp: retry_strategy_def split: if_splits)

text \<open>
  \<open>initialize\<close> creates the client with the retry strategy, subscribes the handlers that
  keep the flag (\<open>connect\<close> sets it, \<open>error\<close> and \<open>end\<close> clear it) and awaits \<open>connect\<close>
  inside \<open>try\<close>, whose \<open>catch\<close> clears the flag. A connection that is established raises
  \<open>connect\<close>; one that is given up raises \<open>error\<close> or rejects. The first argument is the
  client as created, the second says how each attempt ends.
\<close>

definition initialize ::
    "redis_client \<Rightarrow> (nat \<Rightarrow> attempt_outcome) \<Rightarrow> cache_manager \<Rightarrow> cache_manager" where
  "initialize c env m =
     (case connect_loop env 1 0 of
        Connected \<Rightarrow> m\<lparr>client := Some (c\<lparr>alive := True\<rparr>), isConnected := True\<rparr>
      | Failed \<Rightarrow> m\<lparr>client := Some (c\<lparr>alive := False\<rparr>), isConnected := False\<rparr>)"

subsection \<open>Cache operations\<close>

text \<open>
  \<open>serialize\<close> is \<open>typeof value === 'string' ? value : JSON.stringify(value)\<close>, and
  \<open>decode\<close> is \<open>JSON.parse\<close> inside its own \<open>try\<close>, falling back to the raw text. The
  operations are \<open>set\<close> (here \<open>set_key\<close>), \<open>get\<close>, \<open>del\<close>, \<open>delMultiple\<close>, \<open>hset\<close>,
  \<open>hget\<close>, \<open>hgetall\<close> and \<open>incr\<close>. In \<open>hgetall\<close> the reply of the client is an object, and
  so is the \<open>result\<close> filled by \<open>result[field] = ...\<close>, where an assignment to the name
  \<open>__proto__\<close> adds no member.
\<close>

definition serialize :: "json \<Rightarrow> string" where
  "serialize v = (case v of JStr s \<Rightarrow> s | _ \<Rightarrow> stringify v)"

definition decode :: "string \<Rightarrow> json" where
  "decode s = (case json_parse s of Some v \<Rightarrow> v | None \<Rightarrow> JStr s)"


definition set_key :: "string \<Rightarrow> json \<Rightarrow> int \<Rightarrow> cache_manager \<Rightarrow> json \<times> cache_manager" where
  "set_key key v ttl m =
     (if \<not> isConnected m then (JBool False, m)
      else
        (case on_client m (client_setEx key ttl (serialize v)) of
           Inl e \<Rightarrow> (JBool False, m)
         | Inr (u, m') \<Rightarrow> (JBool True, m')))"

definition get :: "string \<Rightarrow> bool \<Rightarrow> cache_manager \<Rightarrow> json \<times> cache_manager" where
  "get key parseJson m =
     (if \<not> isConnected m then (JNull, m)
      else
        (case on_client m (client_get key) of
           Inl e \<Rightarrow> (JNull, m)
         | Inr (None, m') \<Rightarrow> (JNull, m')
         | Inr (Some s, m') \<Rightarrow> if parseJson then (decode s, m') else (JStr s, m')))"

definition del :: "string \<Rightarrow> cache_manager \<Rightarrow> json \<times> cache_manager" where
  "del key m =
     (if \<not> isConnected m then (JBool False, m)
      else
        (case on_client m (client_del [key]) of
           Inl e \<Rightarrow> (JBool False, m)
         | Inr (n, m') \<Rightarrow> (JBool True, m')))"

definition delMultiple :: "string list \<Rightarrow> cache_manager \<Rightarrow> json \<times> cache_manager" where
  "delMultiple keys m =
     (if \<not> isConnected m then (JBool False, m)
      else
        (case on_client m (client_del keys) of
           Inl e \<Rightarrow> (JBool False, m)
         | Inr (n, m') \<Rightarrow> (JBool True, m')))"

definition hset ::
    "string \<Rightarrow> string \<Rightarrow> json \<Rightarrow> int \<Rightarrow> cache_manager \<Rightarrow> json \<times> cache_manager" where
  "hset key field v ttl m =
     (if \<not> isConnected m then (JBool False, m)
      else
        (case on_client m (client_hSet key field (serialize v)) of
           Inl e \<Rightarrow> (JBool False, m)
         | Inr (u, m1) \<Rightarrow>
             if ttl > 0 then
               (case on_client m1 (client_expire key ttl) of
                  Inl e \<Rightarrow> (JBool False, m1)
                | Inr (b, m2) \<Rightarrow> (JBool True, m2))
             else (JBool True, m1)))"

definition hget :: "string \<Rightarrow> string \<Rightarrow> bool \<Rightarrow> cache_manager \<Rightarrow> json \<times> cache_manager" where
  "hget key field parseJson m =
     (if \<not> isConnected m then (JNull, m)
      else
        (case on_client m (client_hGet key field) of
           Inl e \<Rightarrow> (JNull, m)
         | Inr (None, m') \<Rightarrow> (JNull, m')
         | Inr (Some s, m') \<Rightarrow> if parseJson then (decode s, m') else (JStr s, m')))"

definition hgetall :: "string \<Rightarrow> bool \<Rightarrow> cache_manager \<Rightarrow> json \<times> cache_manager" where
  "hgetall key parseJson m =
     (if \<not> isConnected m then (JNull, m)
      else
        (case on_client m (client_hGetAll key) of
           Inl e \<Rightarrow> (JNull, m)
         | Inr (hash, m') \<Rightarrow>
             if length hash = 0 then (JNull, m')
             else if parseJson then
               (JObj (js_order (map (\<lambda>(field, s). (field, decode s))
                                 (filter (\<lambda>(field, s). field \<noteq> ''__proto__'') hash))), m')
             else (JObj (js_order (map (\<lambda>(field, s). (field, JStr s)) hash)), m')))"

definition incr :: "string \<Rightarrow> int \<Rightarrow> int \<Rightarrow> cache_manager \<Rightarrow> json \<times> cache_manager" where
  "incr key increment ttl m =
     (if \<not> isConnected m then (JNull, m)
      else
        (case on_client m (client_incrBy key increment) of
           Inl e \<Rightarrow> (JNull, m)
         | Inr (result, m1) \<Rightarrow>
             if ttl > 0 then
               (case on_client m1 (client_expire key ttl) of
                  Inl e \<Rightarrow> (JNull, m1)
                | Inr (b, m2) \<Rightarrow> (js_integer result, m2))
             else (js_integer result, m1)))"


section \<open>RateLimiter\<close>

text \<open>
  The class \<open>RateLimiter\<close> of \<^verbatim>\<open>src/utils/rateLimiter.js\<close>. A request is what the key
  functions read of it: the caller's address and, when authenticated, the user with its
  id (a string; an absent or empty id is falsy). A limiter is the configuration
  \<open>createLimiter\<close> hands to the rate-limiting middleware, handler included; the registry
  is the \<open>Map\<close> \<open>limiters\<close>, its entries in insertion order, and \<open>Map.set\<close> is
  \<open>AList.update\<close>. Options left out of a call are \<open>None\<close> and take the defaults of the
  destructuring in \<open>createLimiter\<close>. The option and field \<open>max\<close> is \<open>max_hits\<close> here, the
  user's \<open>id\<close> is \<open>user_id\<close>, and times are in milliseconds.
\<close>

record req_user =
  user_id :: "string option"

record request =
  ip :: string
  user :: "req_user option"

record response =
  status :: nat
  body :: json

datatype store_kind = RedisStore | MemoryStore

record limiter =
  windowMs :: nat
  max_hits :: nat
  message :: json
  standardHeaders :: bool
  legacyHeaders :: bool
  store :: store_kind
  keyGenerator :: "request \<Rightarrow> string"
  skipSuccessfulRequests :: bool
  skipFailedRequests :: bool
  handler :: "request \<Rightarrow> response"

record limiter_options =
  opt_windowMs :: "nat option"
  opt_max :: "nat option"
  opt_message :: "string option"
  opt_standardHeaders :: "bool option"
  opt_legacyHeaders :: "bool option"
  opt_keyGenerator :: "(request \<Rightarrow> string) option"
  opt_skipSuccessfulRequests :: "bool option"
  opt_skipFailedRequests :: "bool option"
  opt_name :: "string option"

record rate_limiter =
  redisClient :: "redis_client option"
  limiters :: "(string \<times> limiter) list"

definition or_default :: "'a option \<Rightarrow> 'a \<Rightarrow> 'a" where
  "or_default x d = (case x of None \<Rightarrow> d | Some v \<Rightarrow> v)"

definition no_options :: limiter_options where
  "no_options =
     \<lparr>opt_windowMs = None, opt_max = None, opt_message = None, opt_standardHeaders = None,
      opt_legacyHeaders = None, opt_keyGenerator = None, opt_skipSuccessfulRequests = None,
      opt_skipFailedRequests = None, opt_name = None\<rparr>"

definition defaultKeyGenerator :: "request \<Rightarrow> string" where
  "defaultKeyGenerator req =
     (case user req of
        None \<Rightarrow> ip req
      | Some u \<Rightarrow>
          (case user_id u of
             None \<Rightarrow> ip req
           | Some i \<Rightarrow> if i \<noteq> [] then ''user:'' @ i else ip req))"

text \<open>\<open>Math.ceil(ms / 1000)\<close> on a whole number of milliseconds.\<close>

definition ceil_seconds :: "nat \<Rightarrow> nat" where
  "ceil_seconds ms = (ms + 999) div 1000"

definition rate_limit_handler :: "string \<Rightarrow> nat \<Rightarrow> request \<Rightarrow> response" where
  "rate_limit_handler msg window req =
     \<lparr>status = 429,
      body = JObj [(''success'', JBool False),
                   (''message'', JStr msg),
                   (''code'', JStr ''RATE_LIMIT_EXCEEDED''),
                   (''retryAfter'', JNum (int (ceil_seconds window)))]\<rparr>"

definition createLimiter :: "limiter_options \<Rightarrow> rate_limiter \<Rightarrow> limiter \<times> rate_limiter" where
  "createLimiter options rl =
     (let window = or_default (opt_windowMs options) (15 * 60 * 1000);
          mx = or_default (opt_max options) 100;
          msg = or_default (opt_message options)
                  ''Too many requests from this IP, please try again later'';
          name = or_default (opt_name options) ''default'';
          lim = \<lparr>windowMs = window,
                 max_hits = mx,
                 message = JObj [(''success'', JBool False),
                                 (''message'', JStr msg),
                                 (''code'', JStr ''RATE_LIMIT_EXCEEDED'')],
                 standardHeaders = or_default (opt_standardHeaders options) True,
                 legacyHeaders = or_default (opt_legacyHeaders options) False,
                 store = (case redisClient rl of Some c \<Rightarrow> RedisStore | None \<Rightarrow> MemoryStore),
                 keyGenerator = or_default (opt_keyGenerator options) defaultKeyGenerator,
                 skipSuccessfulRequests = or_default (opt_skipSuccessfulRequests options) False,
                 skipFailedRequests = or_default (opt_skipFailedRequests options) False,
                 handler = rate_limit_handler msg window\<rparr>
      in (lim, rl\<lparr>limiters := AList.update name lim (limiters rl)\<rparr>))"

definition createAuthLimiter :: "rate_limiter \<Rightarrow> limiter \<times> rate_limiter" where
  "createAuthLimiter rl =
     createLimiter
       (no_options\<lparr>opt_windowMs := Some (15 * 60 * 1000),
                   opt_max := Some 5,
                   opt_message := Some ''Too many authentication attempts, please try again later'',
                   opt_name := Some ''auth'',
                   opt_skipSuccessfulRequests := Some True\<rparr>)
       rl"

definition getLimiters :: "rate_limiter \<Rightarrow> string list" where
  "getLimiters rl = map fst (limiters rl)"

text \<open>
  What \<open>createLimiter\<close> stores in the registry is the middleware that \<open>rateLimit\<close> of the
  library \<open>express-rate-limit\<close> returns, a function that keeps its options in its closure;
  the record \<open>limiter\<close> above is that closure. \<open>getRateLimitInfo\<close> reads \<open>limiter.windowMs\<close> and \<open>limiter.max\<close> off the function
  itself, which has no property of either name, so both reads are \<open>undefined\<close>.

  In the record it returns, \<open>None\<close> is what JavaScript makes of that: \<open>undefined\<close> for
  \<open>limit\<close>, \<open>NaN\<close> for a difference or a sum with \<open>undefined\<close> and for what \<open>Math.max\<close>
  and \<open>Math.ceil\<close> make of \<open>NaN\<close>, the invalid date for \<open>new Date(NaN)\<close>. In
  \<open>max - (current || 0)\<close> an absent counter and the empty string count as 0 and the
  decimal text of an exactly held integer as itself. The present time is an argument.
\<close>

definition middleware_property :: "limiter \<Rightarrow> string \<Rightarrow> nat option" where
  "middleware_property lim name = None"

definition current_or_zero :: "string option \<Rightarrow> int option" where
  "current_or_zero current =
     (case current of
        None \<Rightarrow> Some 0
      | Some s \<Rightarrow>
          if s = [] then Some 0
          else (case read_int s of None \<Rightarrow> None | Some n \<Rightarrow> if safe_integer n then Some n else None))"

record rate_limit_info =
  limit :: "nat option"
  remaining :: "int option"
  reset :: "nat option"
  resetTime :: "nat option"

definition getRateLimitInfo ::
    "string \<Rightarrow> string \<Rightarrow> nat \<Rightarrow> rate_limiter \<Rightarrow> rate_limit_info option \<times> rate_limiter" where
  "getRateLimitInfo key limiterName now rl =
     (case redisClient rl of
        None \<Rightarrow> (None, rl)
      | Some c \<Rightarrow>
          (case map_of (limiters rl) limiterName of
             None \<Rightarrow> (None, rl)
           | Some lim \<Rightarrow>
               (let window = middleware_property lim ''windowMs'';
                    mx = middleware_property lim ''max''
                in case client_get (limiterName @ '':'' @ key) c of
                     Inl e \<Rightarrow> (None, rl)
                   | Inr (current, c') \<Rightarrow>
                       (Some \<lparr>limit = mx,
                              remaining =
                                (case (mx, current_or_zero current) of
                                   (Some ceil, Some n) \<Rightarrow> Some (max 0 (int ceil - n))
                                 | _ \<Rightarrow> None),
                              reset = map_option (\<lambda>w. now + w) window,
                              resetTime = map_option (\<lambda>w. ceil_seconds (now + w)) window\<rparr>,
                        rl\<lparr>redisClient := Some c'\<rparr>))))"

subsection \<open>Evaluating a request against a policy\<close>


definition retryAfterSeconds :: "response \<Rightarrow> json option" where
  "retryAfterSeconds r = (case body r of JObj kvs \<Rightarrow> map_of kvs ''retryAfter'' | _ \<Rightarrow> None)"





section \<open>Decimal integers: printing and reading back\<close>

lemma is_digit_digit_char: "d < 10 \<Longrightarrow> is_digit (digit_char d)"
  by (simp add: is_digit_def digit_char_def)

lemma digit_val_digit_char: "d < 10 \<Longrightarrow> digit_val (digit_char d) = d"
  by (simp add: digit_val_def digit_char_def)


lemma digit_chars:
  "digit_char 0 = CHR ''0''" "digit_char 1 = CHR ''1''" "digit_char 2 = CHR ''2''"
  "digit_char 3 = CHR ''3''" "digit_char 4 = CHR ''4''" "digit_char 5 = CHR ''5''"
  "digit_char 6 = CHR ''6''" "digit_char 7 = CHR ''7''" "digit_char 8 = CHR ''8''"
  "digit_char 9 = CHR ''9''"
  by code_simp+

lemma show_nat_nonempty: "show_nat n \<noteq> []"
  by (subst show_nat.simps) simp

lemma show_nat_digits: "list_all is_digit (show_nat n)"
proof (induction n rule: show_nat.induct)
  case (1 n)
  then show ?case
    by (subst show_nat.simps) (simp add: is_digit_digit_char)
qed

lemma read_nat_snoc: "read_nat (ds @ [c]) = 10 * read_nat ds + digit_val c"
  by (simp add: read_nat_def)

lemma read_nat_show_nat: "read_nat (show_nat n) = n"
proof (induction n rule: show_nat.induct)
  case (1 n)
  show ?case
  proof (cases "n < 10")
    case True
    then show ?thesis
      by (subst show_nat.simps) (simp add: read_nat_def digit_val_digit_char)
  next
    case False
    with 1 show ?thesis
      by (subst show_nat.simps) (simp add: read_nat_snoc digit_val_digit_char)
  qed
qed

lemma hd_show_nat_digit: "is_digit (hd (show_nat n))"
  using show_nat_digits [of n] show_nat_nonempty [of n]
  by (cases "show_nat n") simp_all

lemma hd_show_nat_not_minus: "hd (show_nat n) \<noteq> CHR ''-''"
  using hd_show_nat_digit [of n] by (auto simp: is_digit_def)


lemma read_int_show_int: "read_int (show_int i) = Some i"
proof (cases "i < 0")
  case True
  then show ?thesis
    by (simp add: read_int_def show_int_def show_nat_nonempty show_nat_digits read_nat_show_nat)
next
  case False
  then show ?thesis
    by (simp add: read_int_def show_int_def show_nat_nonempty show_nat_digits
        read_nat_show_nat hd_show_nat_not_minus)
qed

section \<open>\<open>JSON.parse\<close> reads back what \<open>JSON.stringify\<close> writes\<close>












lemma skip_ws_keep: "\<not> is_ws c \<Longrightarrow> skip_ws (c # cs) = c # cs"
  by (simp add: skip_ws_def)

lemma digit_plain: "is_digit c \<Longrightarrow> \<not> is_ws c \<and> c \<noteq> CHR '']'' \<and> c \<noteq> CHR ''}''"
  by (auto simp: is_digit_def is_ws_def)


lemma show_int_head:
  "\<exists>c cs. show_int i = c # cs \<and> (c = CHR ''-'' \<or> is_digit c)"
proof (cases "show_nat (nat \<bar>i\<bar>)")
  case Nil
  then show ?thesis by (simp add: show_nat_nonempty)
next
  case (Cons d ds)
  with hd_show_nat_digit [of "nat \<bar>i\<bar>"] have "is_digit d" by simp
  with Cons show ?thesis
    by (cases "i < 0") (auto simp: show_int_def abs_if)
qed

lemma stringify_head:
  "json_ok v \<Longrightarrow> \<exists>c cs. stringify v = c # cs \<and> \<not> is_ws c \<and> c \<noteq> CHR '']'' \<and> c \<noteq> CHR ''}''"
proof (cases v)
  case (JNum i)
  obtain c cs where "show_int i = c # cs" "c = CHR ''-'' \<or> is_digit c"
    using show_int_head by blast
  with JNum show ?thesis
    by (auto simp: is_ws_def dest: digit_plain)
qed (auto simp: is_ws_def quote_def)

lemma skip_ws_stringify: "json_ok v \<Longrightarrow> skip_ws (stringify v @ rest) = stringify v @ rest"
  using stringify_head [of v] by (auto simp: skip_ws_keep)















subsection \<open>The parser reads forward and its fuel suffices\<close>

lemma skip_ws_length: "length (skip_ws s) \<le> length s"
  by (simp add: skip_ws_def length_dropWhile_le)

lemma skip_ws_Cons_length: "skip_ws s = c # cs \<Longrightarrow> length cs < length s"
  using skip_ws_length [of s] by simp

lemma utf8_length: "length (utf8 n) \<le> 3" "length (utf8_pair hi lo) = 4"
  by (simp_all add: utf8_def utf8_pair_def Let_def)

lemma parse_string_shrinks:
  "parse_string s acc = Some (x, r) \<Longrightarrow> \<exists>ys. x = acc @ ys \<and> length ys + length r < length s"
proof (induction "length s" arbitrary: s acc rule: less_induct)
  case less
  have IH: "\<And>s' acc'. parse_string s' acc' = Some (x, r) \<Longrightarrow> length s' < length s \<Longrightarrow>
              \<exists>ys. x = acc' @ ys \<and> length ys + length r < length s'"
    using less.hyps by blast
  have step: "\<exists>ys. x = acc @ ys \<and> length ys + length r < length s"
    if "parse_string s' (acc @ u) = Some (x, r)" and "length s' < length s"
      and "length u + length s' \<le> length s" for s' u
  proof -
    from IH [OF that(1,2)] obtain ys where "x = (acc @ u) @ ys" "length ys + length r < length s'"
      by blast
    with that(3) have "x = acc @ (u @ ys) \<and> length (u @ ys) + length r < length s" by simp
    then show ?thesis by blast
  qed
  from less.prems obtain c cs where s: "s = c # cs" by (cases s) auto
  note p = less.prems [unfolded s parse_string.simps(2)]
  show ?case
  proof (cases "c = CHR 0x22")
    case True
    with p s show ?thesis by simp
  next
    case nq: False
    show ?thesis
    proof (cases "c = CHR 0x5C")
      case False
      with nq p have "parse_string cs (acc @ [c]) = Some (x, r)"
        by (simp split: if_splits del: parse_string.simps)
      then show ?thesis by (rule step) (simp_all add: s)
    next
      case True
      with nq p obtain e r0 where cs: "cs = e # r0" by (cases cs) auto
      note q = p [unfolded cs, simplified nq True, simplified]
      show ?thesis
      proof (cases "e = CHR ''u''")
        case False
        with q obtain d where "parse_string r0 (acc @ [d]) = Some (x, r)"
          by (auto split: if_splits simp del: parse_string.simps)
        then show ?thesis by (rule step) (simp_all add: s cs)
      next
        case u: True
        with q obtain h1 h2 h3 h4 r1 n where
          r0: "r0 = h1 # h2 # h3 # h4 # r1" and n: "hex4 h1 h2 h3 h4 = Some n"
          by (auto split: list.splits option.splits simp del: parse_string.simps)
        from q u r0 n
        consider (single) "parse_string r1 (acc @ utf8 n) = Some (x, r)"
          | (pair) b w l1 l2 l3 l4 r2 lo where "r1 = b # w # l1 # l2 # l3 # l4 # r2"
              "parse_string r2 (acc @ utf8_pair n lo) = Some (x, r)"
          by (auto split: list.splits option.splits if_splits simp del: parse_string.simps)
        then show ?thesis
        proof cases
          case single
          then show ?thesis
            by (rule step) (use utf8_length(1) [of n] in \<open>simp_all add: s cs r0\<close>)
        next
          case pair
          from pair(2) show ?thesis
            by (rule step) (simp_all add: s cs r0 pair(1) utf8_length(2))
        qed
      qed
    qed
  qed
qed

lemma parse_string_consumes: "parse_string s acc = Some (x, r) \<Longrightarrow> length r < length s"
  by (drule parse_string_shrinks) auto


lemma parse_number_consumes:
  assumes "parse_number s = Some (v, r)"
  shows "length r < length s" and "(\<exists>i. v = JNum i) \<or> (\<exists>lit. v = JDec lit)"
proof -
  define neg where "neg \<longleftrightarrow> s \<noteq> [] \<and> hd s = CHR ''-''"
  define s1 where "s1 = (if neg then tl s else s)"
  define ip where "ip = (if s1 \<noteq> [] \<and> hd s1 = CHR ''0'' then ''0'' else takeWhile is_digit s1)"
  define s2 where "s2 = drop (length ip) s1"
  have unfolded: "parse_number s =
      (if ip = [] then None
       else (case frac_part s2 of None \<Rightarrow> None
             | Some fl \<Rightarrow> (case exp_part (drop fl s2) of None \<Rightarrow> None
                 | Some el \<Rightarrow> if fl = 0 \<and> el = 0
                          \<and> safe_integer (if neg then - int (read_nat ip) else int (read_nat ip))
                     then Some (JNum (if neg then - int (read_nat ip) else int (read_nat ip)), s2)
                     else Some (JDec (take ((if neg then 1 else 0) + length ip + fl + el) s),
                                drop ((if neg then 1 else 0) + length ip + fl + el) s))))"
    by (simp only: parse_number_def Let_def neg_def s1_def ip_def s2_def)
  from assms have ip: "ip \<noteq> []"
    unfolding unfolded by (simp split: if_splits)
  then have s1: "s1 \<noteq> []"
    by (auto simp: ip_def split: if_splits)
  then have s: "s \<noteq> []" and le: "length s1 \<le> length s"
    by (auto simp: s1_def split: if_splits)
  from ip s1 have "length s2 < length s1"
    by (cases ip) (simp_all add: s2_def)
  with le have a: "length s2 < length s" by simp
  from ip s have b: "\<And>fl el. length (drop ((if neg then 1 else 0) + length ip + fl + el) s) < length s"
    by (cases ip; cases s) simp_all
  from assms show "length r < length s"
    unfolding unfolded using a b ip
    by (auto split: option.splits if_splits)
  from assms show "(\<exists>i. v = JNum i) \<or> (\<exists>lit. v = JDec lit)"
    unfolding unfolded
    by (auto split: option.splits if_splits)
qed

lemma parse_consumes:
  "parse_value f s = Some (v, r) \<Longrightarrow> length r < length s"
  "parse_elems f s acc = Some (xs, r') \<Longrightarrow> length r' < length s"
  "parse_members f s acc' = Some (kvs, r'') \<Longrightarrow> length r'' < length s"
proof (induction f s and f s acc and f s acc' arbitrary: v r and xs r' and kvs r''
    rule: parse_value_parse_elems_parse_members.induct)
  case (1 s)
  then show ?case by simp
next
  case (2 f s)
  from "2.prems" obtain c cs where sk: "skip_ws s = c # cs"
    by (cases "skip_ws s") auto
  then have cs: "length cs < length s" by (rule skip_ws_Cons_length)
  consider (obj) "c = CHR ''{''" | (arr) "c \<noteq> CHR ''{''" "c = CHR ''[''"
    | (str) "c \<noteq> CHR ''{''" "c \<noteq> CHR ''[''" "c = CHR 0x22"
    | (num) "c \<noteq> CHR ''{''" "c \<noteq> CHR ''[''" "c \<noteq> CHR 0x22" "c = CHR ''-'' \<or> is_digit c"
    | (lit) "c \<noteq> CHR ''{''" "c \<noteq> CHR ''[''" "c \<noteq> CHR 0x22" "\<not> (c = CHR ''-'' \<or> is_digit c)"
    by blast
  then show ?case
  proof cases
    case obj
    from "2.prems" obj sk obtain d r0 where sk2: "skip_ws cs = d # r0"
      by (cases "skip_ws cs") auto
    then have r0: "length r0 < length cs" by (rule skip_ws_Cons_length)
    show ?thesis
    proof (cases "d = CHR ''}''")
      case True
      with "2.prems" obj sk sk2 have "r = r0" by simp
      with r0 cs show ?thesis by simp
    next
      case False
      with "2.prems" obj sk sk2 obtain kvs where "parse_members f cs [] = Some (kvs, r)"
        by auto
      from "2.IH"(1) [OF sk obj sk2 False this] cs show ?thesis by simp
    qed
  next
    case arr
    from "2.prems" arr sk obtain d r0 where sk2: "skip_ws cs = d # r0"
      by (cases "skip_ws cs") auto
    then have r0: "length r0 < length cs" by (rule skip_ws_Cons_length)
    show ?thesis
    proof (cases "d = CHR '']''")
      case True
      with "2.prems" arr sk sk2 have "r = r0" by simp
      with r0 cs show ?thesis by simp
    next
      case False
      with "2.prems" arr sk sk2 obtain xs where "parse_elems f cs [] = Some (xs, r)"
        by auto
      from "2.IH"(2) [OF sk arr sk2 False this] cs show ?thesis by simp
    qed
  next
    case str
    with "2.prems" sk obtain x where "parse_string cs [] = Some (x, r)" by auto
    from parse_string_consumes [OF this] cs show ?thesis by simp
  next
    case num
    with "2.prems" sk have "parse_number (c # cs) = Some (v, r)" by auto
    from parse_number_consumes(1) [OF this] skip_ws_length [of s] sk show ?thesis by simp
  next
    case lit
    with "2.prems" sk have "r = drop 4 (c # cs) \<or> r = drop 5 (c # cs)"
      by (auto split: if_splits)
    with skip_ws_length [of s] sk show ?thesis by auto
  qed
next
  case (3 s acc)
  then show ?case by simp
next
  case (4 f s acc)
  from "4.prems" obtain v r where pv: "parse_value f s = Some (v, r)"
    by (cases "parse_value f s") auto
  from "4.IH"(1) [OF pv] have r: "length r < length s" .
  from "4.prems" pv obtain d r0 where sk: "skip_ws r = d # r0"
    by (cases "skip_ws r") auto
  then have r0: "length r0 < length r" by (rule skip_ws_Cons_length)
  show ?case
  proof (cases "d = CHR '',''")
    case True
    with "4.prems" pv sk have "parse_elems f r0 (acc @ [v]) = Some (xs, r')" by simp
    from "4.IH"(2) [OF pv refl sk True this] r r0 show ?thesis by simp
  next
    case False
    with "4.prems" pv sk have "r' = r0" by (simp split: if_splits)
    with r r0 show ?thesis by simp
  qed
next
  case (5 s acc)
  then show ?case by simp
next
  case (6 f s acc)
  from "6.prems" obtain q s1 where sk: "skip_ws s = q # s1"
    by (cases "skip_ws s") auto
  then have l1: "length s1 < length s" by (rule skip_ws_Cons_length)
  from "6.prems" sk have q: "\<not> q \<noteq> CHR 0x22" by (auto split: if_splits)
  from "6.prems" sk q obtain k s2 where ps: "parse_string s1 [] = Some (k, s2)"
    by (cases "parse_string s1 []") auto
  from parse_string_consumes [OF ps] have l2: "length s2 < length s1" .
  from "6.prems" sk q ps obtain col s3 where sk2: "skip_ws s2 = col # s3"
    by (cases "skip_ws s2") auto
  then have l3: "length s3 < length s2" by (rule skip_ws_Cons_length)
  from "6.prems" sk q ps sk2 have col: "\<not> col \<noteq> CHR '':''" by (auto split: if_splits)
  from "6.prems" sk q ps sk2 col obtain v r where pv: "parse_value f s3 = Some (v, r)"
    by (cases "parse_value f s3") auto
  from "6.IH"(1) [OF sk q ps refl sk2 col pv] have l4: "length r < length s3" .
  from "6.prems" sk q ps sk2 col pv obtain d r0 where sk3: "skip_ws r = d # r0"
    by (cases "skip_ws r") auto
  then have l5: "length r0 < length r" by (rule skip_ws_Cons_length)
  show ?case
  proof (cases "d = CHR '',''")
    case True
    with "6.prems" sk q ps sk2 col pv sk3
    have "parse_members f r0 (AList.update k v acc) = Some (kvs, r'')" by simp
    from "6.IH"(2) [OF sk q ps refl sk2 col pv refl sk3 True this] l1 l2 l3 l4 l5
    show ?thesis by simp
  next
    case False
    with "6.prems" sk q ps sk2 col pv sk3 have "r'' = r0" by (simp split: if_splits)
    with l1 l2 l3 l4 l5 show ?thesis by simp
  qed
qed

lemma fuel_enough:
  "parse_value f s = Some res \<Longrightarrow> 2 * length s + 1 \<le> g \<Longrightarrow> parse_value g s = Some res"
  "parse_elems f s acc = Some res' \<Longrightarrow> 2 * length s + 2 \<le> g' \<Longrightarrow>
     parse_elems g' s acc = Some res'"
  "parse_members f s acc' = Some res'' \<Longrightarrow> 2 * length s + 2 \<le> g'' \<Longrightarrow>
     parse_members g'' s acc' = Some res''"
proof (induction f s and f s acc and f s acc' arbitrary: res g and res' g' and res'' g''
    rule: parse_value_parse_elems_parse_members.induct)
  case (1 s)
  then show ?case by simp
next
  case (2 f s)
  from "2.prems"(2) obtain h where g: "g = Suc h" and h: "2 * length s \<le> h"
    by (cases g) auto
  from "2.prems"(1) obtain c cs where sk: "skip_ws s = c # cs"
    by (cases "skip_ws s") auto
  then have cs: "length cs < length s" by (rule skip_ws_Cons_length)
  with h have hcs: "2 * length cs + 2 \<le> h" by simp
  consider (obj) "c = CHR ''{''" | (arr) "c \<noteq> CHR ''{''" "c = CHR ''[''"
    | (other) "c \<noteq> CHR ''{''" "c \<noteq> CHR ''[''"
    by blast
  then show ?case
  proof cases
    case obj
    from "2.prems"(1) obj sk obtain d r0 where sk2: "skip_ws cs = d # r0"
      by (cases "skip_ws cs") auto
    show ?thesis
    proof (cases "d = CHR ''}''")
      case True
      with "2.prems"(1) obj sk sk2 show ?thesis by (simp add: g)
    next
      case False
      with "2.prems"(1) obj sk sk2 obtain kvs r where
        pm: "parse_members f cs [] = Some (kvs, r)" and res: "res = (JObj (js_order kvs), r)"
        by auto
      from "2.IH"(1) [OF sk obj sk2 False pm hcs]
      show ?thesis using obj sk sk2 False res by (simp add: g)
    qed
  next
    case arr
    from "2.prems"(1) arr sk obtain d r0 where sk2: "skip_ws cs = d # r0"
      by (cases "skip_ws cs") auto
    show ?thesis
    proof (cases "d = CHR '']''")
      case True
      with "2.prems"(1) arr sk sk2 show ?thesis by (simp add: g)
    next
      case False
      with "2.prems"(1) arr sk sk2 obtain xs r where
        pe: "parse_elems f cs [] = Some (xs, r)" and res: "res = (JArr xs, r)"
        by auto
      from "2.IH"(2) [OF sk arr sk2 False pe hcs]
      show ?thesis using arr sk sk2 False res by (simp add: g)
    qed
  next
    case other
    with "2.prems"(1) sk show ?thesis by (simp add: g)
  qed
next
  case (3 s acc)
  then show ?case by simp
next
  case (4 f s acc)
  from "4.prems"(2) obtain h where g: "g' = Suc h" and h: "2 * length s + 1 \<le> h"
    by (cases g') auto
  from "4.prems"(1) obtain v r where pv: "parse_value f s = Some (v, r)"
    by (cases "parse_value f s") auto
  from parse_consumes(1) [OF pv] have r: "length r < length s" .
  from "4.IH"(1) [OF pv h] have pv': "parse_value h s = Some (v, r)" .
  from "4.prems"(1) pv obtain d r0 where sk: "skip_ws r = d # r0"
    by (cases "skip_ws r") auto
  then have r0: "length r0 < length r" by (rule skip_ws_Cons_length)
  show ?case
  proof (cases "d = CHR '',''")
    case True
    with "4.prems"(1) pv sk have pe: "parse_elems f r0 (acc @ [v]) = Some res'" by simp
    from r r0 h have "2 * length r0 + 2 \<le> h" by simp
    from "4.IH"(2) [OF pv refl sk True pe this]
    show ?thesis using pv' sk True by (simp add: g)
  next
    case False
    with "4.prems"(1) pv sk pv' show ?thesis by (simp add: g)
  qed
next
  case (5 s acc)
  then show ?case by simp
next
  case (6 f s acc)
  from "6.prems"(2) obtain h where g: "g'' = Suc h" and h: "2 * length s + 1 \<le> h"
    by (cases g'') auto
  from "6.prems"(1) obtain q s1 where sk: "skip_ws s = q # s1"
    by (cases "skip_ws s") auto
  then have l1: "length s1 < length s" by (rule skip_ws_Cons_length)
  from "6.prems"(1) sk have q: "\<not> q \<noteq> CHR 0x22" by (auto split: if_splits)
  from "6.prems"(1) sk q obtain k s2 where ps: "parse_string s1 [] = Some (k, s2)"
    by (cases "parse_string s1 []") auto
  from parse_string_consumes [OF ps] have l2: "length s2 < length s1" .
  from "6.prems"(1) sk q ps obtain col s3 where sk2: "skip_ws s2 = col # s3"
    by (cases "skip_ws s2") auto
  then have l3: "length s3 < length s2" by (rule skip_ws_Cons_length)
  from "6.prems"(1) sk q ps sk2 have col: "\<not> col \<noteq> CHR '':''" by (auto split: if_splits)
  from "6.prems"(1) sk q ps sk2 col obtain v r where pv: "parse_value f s3 = Some (v, r)"
    by (cases "parse_value f s3") auto
  from parse_consumes(1) [OF pv] have l4: "length r < length s3" .
  from l1 l2 l3 h have "2 * length s3 + 1 \<le> h" by simp
  from "6.IH"(1) [OF sk q ps refl sk2 col pv this] have pv': "parse_value h s3 = Some (v, r)" .
  from "6.prems"(1) sk q ps sk2 col pv obtain d r0 where sk3: "skip_ws r = d # r0"
    by (cases "skip_ws r") auto
  then have l5: "length r0 < length r" by (rule skip_ws_Cons_length)
  show ?case
  proof (cases "d = CHR '',''")
    case True
    with "6.prems"(1) sk q ps sk2 col pv sk3
    have pm: "parse_members f r0 (AList.update k v acc) = Some res''" by simp
    from l1 l2 l3 l4 l5 h have "2 * length r0 + 2 \<le> h" by simp
    from "6.IH"(2) [OF sk q ps refl sk2 col pv refl sk3 True pm this]
    show ?thesis using sk q ps sk2 col pv' sk3 True by (simp add: g)
  next
    case False
    with "6.prems"(1) sk q ps sk2 col pv sk3 pv' show ?thesis by (simp add: g)
  qed
qed

text \<open>
  The fuel \<open>json_parse\<close> gives its parser is never the reason for a failure: whenever
  some amount of fuel parses a text, \<open>json_parse\<close> parses it to the same value.
\<close>

lemma json_parse_any_fuel:
  assumes "parse_value f s = Some (v, r)" and "skip_ws r = []"
  shows "json_parse s = Some v"
  using fuel_enough(1) [OF assms(1), of "2 * length s + 2"] assms(2)
  by (simp add: json_parse_def)

section \<open>Connecting: backoff and giving up\<close>

lemma connect_loop_all_fail:
  "(\<And>k. env k \<noteq> Succeeds) \<Longrightarrow> connect_loop env n spent = Failed"
proof (induction env n spent rule: connect_loop.induct)
  case (1 env n spent)
  obtain e where e: "env n = Fails e"
    using "1.prems" [of n] by (cases "env n") auto
  show ?case
  proof (cases "retry_strategy \<lparr>error = Some e, total_retry_time = spent, attempt = n\<rparr>")
    case (RetryAfter d)
    with e "1.IH" [OF e RetryAfter] "1.prems" show ?thesis
      by (subst connect_loop.simps) simp
  qed (use e in \<open>subst connect_loop.simps, simp\<close>)+
qed

text \<open>
  C7. While the error is not a refused connection, the retry strategy answers attempt
  \<open>n\<close> with the delay \<open>min (n * 100) 3000\<close> milliseconds as long as at most one hour of
  retry time has been spent and \<open>n\<close> is at most 10; past either bound it answers with no
  delay, so no further attempt is made. When no attempt succeeds the connect loop ends
  and \<open>initialize\<close> returns with the manager marked as not connected.
\<close>

theorem retry_backoff_and_give_up:
  assumes "\<not> connection_refused options"
  shows "(total_retry_time options \<le> 3600000 \<and> attempt options \<le> 10 \<longrightarrow>
            retry_strategy options = RetryAfter (min (attempt options * 100) 3000))
       \<and> (total_retry_time options > 3600000 \<or> attempt options > 10 \<longrightarrow>
            (\<forall>d. retry_strategy options \<noteq> RetryAfter d))
       \<and> ((\<forall>k. env k \<noteq> Succeeds) \<longrightarrow>
            connect_loop env 1 0 = Failed \<and> \<not> isConnected (initialize c env m))"
proof -
  have loop: "(\<forall>k. env k \<noteq> Succeeds) \<longrightarrow> connect_loop env 1 0 = Failed"
    using connect_loop_all_fail [of env 1 0] by blast
  from assms show ?thesis
    using loop by (auto simp: retry_strategy_def initialize_def)
qed

theorem retry_backoff_and_give_up_witness:
  "retry_strategy
     \<lparr>error = Some \<lparr>err_code = Some ''ETIMEDOUT''\<rparr>, total_retry_time = 300, attempt = 3\<rparr>
     = RetryAfter 300
   \<and> (\<forall>d. retry_strategy \<lparr>error = None, total_retry_time = 5500, attempt = 11\<rparr> \<noteq> RetryAfter d)
   \<and> \<not> isConnected (initialize \<lparr>clock = 0, entries = Map.empty, alive = False\<rparr>
                        (\<lambda>k. Fails \<lparr>err_code = None\<rparr>) \<lparr>client = None, isConnected = False\<rparr>)"
proof -
  have a: "\<not> connection_refused
      \<lparr>error = Some \<lparr>err_code = Some ''ETIMEDOUT''\<rparr>, total_retry_time = 300, attempt = 3\<rparr>"
    by (simp add: connection_refused_def)
  have b: "\<not> connection_refused \<lparr>error = None, total_retry_time = 5500, attempt = 11\<rparr>"
    by (simp add: connection_refused_def)
  show ?thesis
    using retry_backoff_and_give_up [OF a, of "\<lambda>k. Fails \<lparr>err_code = None\<rparr>"
        "\<lparr>clock = 0, entries = Map.empty, alive = False\<rparr>" "\<lparr>client = None, isConnected = False\<rparr>"]
      retry_backoff_and_give_up [OF b, of "\<lambda>k. Fails \<lparr>err_code = None\<rparr>"
        "\<lparr>clock = 0, entries = Map.empty, alive = False\<rparr>" "\<lparr>client = None, isConnected = False\<rparr>"]
    by simp
qed

section \<open>Cache operations while disconnected\<close>

text \<open>
  C2, as the code has it. While \<open>isConnected\<close> is false every cache operation returns at
  once and leaves the manager, and with it the store, as it was, so nothing is kept for
  later: \<open>get\<close>, \<open>hget\<close> and \<open>hgetall\<close> return null, \<open>set\<close>, \<open>del\<close>, \<open>delMultiple\<close> and
  \<open>hset\<close> return false, and \<open>incr\<close> returns null.
\<close>

theorem disconnected_operations:
  assumes "\<not> isConnected m"
  shows "get key parseJson m = (JNull, m)
       \<and> hget key field parseJson m = (JNull, m)
       \<and> hgetall key parseJson m = (JNull, m)
       \<and> set_key key v ttl m = (JBool False, m)
       \<and> del key m = (JBool False, m)
       \<and> delMultiple keys m = (JBool False, m)
       \<and> hset key field v ttl m = (JBool False, m)
       \<and> incr key n ttl m = (JNull, m)"
  using assms
  by (simp add: get_def hget_def hgetall_def set_key_def del_def delMultiple_def hset_def incr_def)

theorem disconnected_operations_witness:
  "get ''k'' True \<lparr>client = None, isConnected = False\<rparr>
     = (JNull, \<lparr>client = None, isConnected = False\<rparr>)
   \<and> set_key ''k'' (JNum 1) 60 \<lparr>client = None, isConnected = False\<rparr>
     = (JBool False, \<lparr>client = None, isConnected = False\<rparr>)
   \<and> incr ''k'' 1 60 \<lparr>client = None, isConnected = False\<rparr>
     = (JNull, \<lparr>client = None, isConnected = False\<rparr>)"
proof -
  have h: "\<not> isConnected \<lparr>client = None, isConnected = False\<rparr>" by simp
  show ?thesis
    using disconnected_operations [OF h, of "''k''" True "''f''" "JNum 1" 60 "[]" 1] by simp
qed

text \<open>
  The claim as written has \<open>incr\<close> return false while disconnected; it returns null.
\<close>

theorem incr_disconnected_counterexample:
  "fst (incr ''hits'' 1 3600 \<lparr>client = None, isConnected = False\<rparr>) \<noteq> JBool False"
  by (simp add: incr_def)

section \<open>Setting a value and getting it back\<close>









section \<open>Reading a whole hash\<close>

text \<open>
  C10. Whatever the state of the connection, \<open>hgetall\<close> returns null for a key that is
  absent and for a key whose hash has no field: the two cannot be told apart.
\<close>

theorem hgetall_empty_or_absent:
  assumes "\<forall>c. client m = Some c \<longrightarrow>
             live c key = None \<or> (\<exists>e. live c key = Some e \<and> val e = RHash [])"
  shows "fst (hgetall key parseJson m) = JNull"
proof (cases "client m")
  case None
  then show ?thesis by (simp add: hgetall_def on_client_def)
next
  case (Some c)
  with assms have "live c key = None \<or> (\<exists>e. live c key = Some e \<and> val e = RHash [])"
    by blast
  with Some show ?thesis
    by (auto simp: hgetall_def on_client_def client_hGetAll_def)
qed

theorem hgetall_empty_or_absent_witness:
  "fst (hgetall ''h'' True
          \<lparr>client = Some \<lparr>clock = 0,
                           entries = [''h'' \<mapsto> \<lparr>val = RHash [], expiry = None\<rparr>],
                           alive = True\<rparr>,
           isConnected = True\<rparr>) = JNull
   \<and> fst (hgetall ''gone'' True
          \<lparr>client = Some \<lparr>clock = 0,
                           entries = [''h'' \<mapsto> \<lparr>val = RHash [], expiry = None\<rparr>],
                           alive = True\<rparr>,
           isConnected = True\<rparr>) = JNull"
proof -
  let ?c = "\<lparr>clock = 0, entries = [''h'' \<mapsto> \<lparr>val = RHash [], expiry = None\<rparr>], alive = True\<rparr>"
  let ?m = "\<lparr>client = Some ?c, isConnected = True\<rparr>"
  have a: "\<forall>c. client ?m = Some c \<longrightarrow>
             live c ''h'' = None \<or> (\<exists>e. live c ''h'' = Some e \<and> val e = RHash [])"
    by (simp add: live_def)
  have b: "\<forall>c. client ?m = Some c \<longrightarrow>
             live c ''gone'' = None \<or> (\<exists>e. live c ''gone'' = Some e \<and> val e = RHash [])"
    by (simp add: live_def)
  show ?thesis
    using hgetall_empty_or_absent [OF a, of True] hgetall_empty_or_absent [OF b, of True]
    by simp
qed

section \<open>Incrementing a counter\<close>

lemma safe_integer_int64: "safe_integer i \<Longrightarrow> int64 i"
  by (simp add: safe_integer_def int64_def)

lemma read_counter_show_int: "int64 i \<Longrightarrow> read_counter (show_int i) = Some i"
  by (simp add: read_counter_def read_int_show_int)

lemma read_counter_int64: "read_counter s = Some i \<Longrightarrow> int64 i"
  by (auto simp: read_counter_def split: option.splits if_splits)

lemma incr_fresh:
  assumes "alive c" "live c key = None" "int64 n"
    and "0 < ttl \<longrightarrow> int64 (int (clock c) + ttl * 1000)"
  shows "\<exists>c'. incr key n ttl \<lparr>client = Some c, isConnected = True\<rparr>
                 = (js_integer n, \<lparr>client = Some c', isConnected = True\<rparr>)
          \<and> counter_of c' key = Some n
          \<and> expiry_of c' key = (if ttl > 0 then Some (clock c + nat ttl * 1000) else None)
          \<and> (\<forall>k. k \<noteq> key \<longrightarrow> entries c' k = entries c k) \<and> clock c' = clock c"
  using assms
  by (auto simp: incr_def on_client_def client_incrBy_def client_expire_def expire_time_def
      counter_of_def expiry_of_def live_def put_def read_counter_show_int split: option.splits)

lemma incr_existing:
  assumes "alive c" "live c key = Some e" "val e = RString s" "read_counter s = Some old"
    and "int64 n" "int64 (old + n)"
    and "0 < ttl \<longrightarrow> int64 (int (clock c) + ttl * 1000)"
  shows "\<exists>c'. incr key n ttl \<lparr>client = Some c, isConnected = True\<rparr>
                 = (js_integer (old + n), \<lparr>client = Some c', isConnected = True\<rparr>)
          \<and> counter_of c' key = Some (old + n)
          \<and> expiry_of c' key = (if ttl > 0 then Some (clock c + nat ttl * 1000) else expiry e)
          \<and> (\<forall>k. k \<noteq> key \<longrightarrow> entries c' k = entries c k) \<and> clock c' = clock c"
  using assms
  by (auto simp: incr_def on_client_def client_incrBy_def client_expire_def expire_time_def
      counter_of_def expiry_of_def live_def put_def read_counter_show_int
      split: option.splits if_splits)

lemma incr_overflow:
  assumes "alive c" "counter_of c key = Some old" "int64 n" "\<not> int64 (old + n)"
  shows "incr key n ttl \<lparr>client = Some c, isConnected = True\<rparr>
           = (JNull, \<lparr>client = Some c, isConnected = True\<rparr>)"
proof (cases "live c key")
  case None
  with assms(2) have "old = 0" by (simp add: counter_of_def)
  with assms(3,4) show ?thesis by simp
next
  case (Some e)
  with assms(2) obtain s where "val e = RString s" "read_counter s = Some old"
    by (cases "val e") (auto simp: counter_of_def)
  with assms(1,3,4) Some show ?thesis
    by (simp add: incr_def on_client_def client_incrBy_def)
qed

lemma js_integer_facts:
  "js_integer i \<noteq> JNull" "safe_integer i \<Longrightarrow> js_integer i = JNum i"
  by (simp_all add: js_integer_def)

lemma incr_in_range:
  assumes "alive c" and "counter_of c key = Some old" and "int64 n" and "int64 (old + n)"
    and "0 < ttl \<longrightarrow> int64 (int (clock c) + ttl * 1000)"
  shows "\<exists>c'. incr key n ttl \<lparr>client = Some c, isConnected = True\<rparr>
                 = (js_integer (old + n), \<lparr>client = Some c', isConnected = True\<rparr>)
          \<and> counter_of c' key = Some (old + n)
          \<and> expiry_of c' key
              = (if ttl > 0 then Some (clock c + nat ttl * 1000) else expiry_of c key)
          \<and> (\<forall>k. k \<noteq> key \<longrightarrow> entries c' k = entries c k) \<and> clock c' = clock c"
proof (cases "live c key")
  case None
  with assms(2) have old: "old = 0" by (simp add: counter_of_def)
  from None have e: "expiry_of c key = None" by (simp add: expiry_of_def)
  from incr_fresh [OF assms(1) None assms(3,5)] show ?thesis
    unfolding old e by simp
next
  case (Some e)
  with assms(2) obtain s where s: "val e = RString s" "read_counter s = Some old"
    by (cases "val e") (auto simp: counter_of_def)
  from Some have e: "expiry_of c key = expiry e" by (simp add: expiry_of_def)
  from incr_existing [OF assms(1) Some s assms(3,4,5)] show ?thesis
    unfolding e by simp
qed

text \<open>
  C6, as the code has it. Let the store be connected, the key hold a counter \<open>old\<close> (an
  absent key counts from 0), and \<open>n\<close> and \<open>ttl\<close> be whole numbers of JavaScript. When
  \<open>old + n\<close> is a 64-bit signed integer, and for \<open>ttl > 0\<close> the store can hold the expiry
  time, \<open>incr key n ttl\<close> stores \<open>old + n\<close> and returns a number, which is \<open>old + n\<close> when
  JavaScript holds that exactly. For \<open>ttl > 0\<close> the key then expires \<open>ttl\<close> seconds from
  now, whatever its expiry was; for \<open>ttl \<le> 0\<close> its expiry is as before. No other key
  changes. When \<open>old + n\<close> is not a 64-bit signed integer, the store refuses the increment:
  \<open>incr\<close> returns \<open>null\<close> and nothing changes.
\<close>

theorem incr_adds_and_reapplies_ttl:
  assumes "isConnected m" and "client m = Some c" and "alive c"
    and "counter_of c key = Some old" and "safe_integer n" and "safe_integer ttl"
  shows "(int64 (old + n) \<and> (0 < ttl \<longrightarrow> int64 (int (clock c) + ttl * 1000)) \<longrightarrow>
            (\<exists>c'. snd (incr key n ttl m) = m\<lparr>client := Some c'\<rparr>
               \<and> fst (incr key n ttl m) \<noteq> JNull
               \<and> (safe_integer (old + n) \<longrightarrow> fst (incr key n ttl m) = JNum (old + n))
               \<and> counter_of c' key = Some (old + n)
               \<and> expiry_of c' key
                   = (if ttl > 0 then Some (clock c + nat ttl * 1000) else expiry_of c key)
               \<and> (\<forall>k. k \<noteq> key \<longrightarrow> entries c' k = entries c k) \<and> clock c' = clock c))
       \<and> (\<not> int64 (old + n) \<longrightarrow> incr key n ttl m = (JNull, m))"
proof (intro conjI impI)
  have m: "m = \<lparr>client = Some c, isConnected = True\<rparr>"
    using assms(1,2) by simp
  note n = safe_integer_int64 [OF assms(5)]
  {
    assume "\<not> int64 (old + n)"
    from incr_overflow [OF assms(3,4) n this, of ttl]
    show "incr key n ttl m = (JNull, m)" unfolding m .
  }
  assume "int64 (old + n) \<and> (0 < ttl \<longrightarrow> int64 (int (clock c) + ttl * 1000))"
  then have sum: "int64 (old + n)" and ex: "0 < ttl \<longrightarrow> int64 (int (clock c) + ttl * 1000)"
    by simp_all
  from incr_in_range [OF assms(3,4) n sum ex] obtain c' where
    c': "incr key n ttl m = (js_integer (old + n), m\<lparr>client := Some c'\<rparr>)"
      "counter_of c' key = Some (old + n)"
      "expiry_of c' key = (if ttl > 0 then Some (clock c + nat ttl * 1000) else expiry_of c key)"
      "\<forall>k. k \<noteq> key \<longrightarrow> entries c' k = entries c k" "clock c' = clock c"
    unfolding m by auto
  show "\<exists>c'. snd (incr key n ttl m) = m\<lparr>client := Some c'\<rparr>
          \<and> fst (incr key n ttl m) \<noteq> JNull
          \<and> (safe_integer (old + n) \<longrightarrow> fst (incr key n ttl m) = JNum (old + n))
          \<and> counter_of c' key = Some (old + n)
          \<and> expiry_of c' key
              = (if ttl > 0 then Some (clock c + nat ttl * 1000) else expiry_of c key)
          \<and> (\<forall>k. k \<noteq> key \<longrightarrow> entries c' k = entries c k) \<and> clock c' = clock c"
  proof (intro exI [of _ c'] conjI)
    show "snd (incr key n ttl m) = m\<lparr>client := Some c'\<rparr>" using c'(1) by simp
    show "fst (incr key n ttl m) \<noteq> JNull" using c'(1) by (simp add: js_integer_facts(1))
    show "safe_integer (old + n) \<longrightarrow> fst (incr key n ttl m) = JNum (old + n)"
      using c'(1) by (simp add: js_integer_facts(2))
  qed (rule c'(2) c'(3) c'(4) c'(5))+
qed

lemma counter_facts:
  "read_counter ''7'' = Some 7"
  "read_counter ''9223372036854775807'' = Some 9223372036854775807"
proof -
  have "show_int 7 = ''7''" "show_int 9223372036854775807 = ''9223372036854775807''"
    by (simp_all add: show_int_def show_nat.simps digit_chars)
  with read_counter_show_int [of 7] read_counter_show_int [of 9223372036854775807]
  show "read_counter ''7'' = Some 7"
    "read_counter ''9223372036854775807'' = Some 9223372036854775807"
    by (simp_all add: int64_def)
qed

theorem incr_adds_and_reapplies_ttl_witness:
  "(\<exists>c'. incr ''hits'' 2 60
           \<lparr>client = Some \<lparr>clock = 5000,
                            entries = [''hits'' \<mapsto> \<lparr>val = RString ''7'', expiry = Some 9000\<rparr>],
                            alive = True\<rparr>,
            isConnected = True\<rparr>
         = (JNum 9, \<lparr>client = Some c', isConnected = True\<rparr>)
       \<and> counter_of c' ''hits'' = Some 9
       \<and> expiry_of c' ''hits'' = Some 65000)
   \<and> incr ''hits'' 1 0
       \<lparr>client = Some \<lparr>clock = 5000,
                        entries = [''hits'' \<mapsto> \<lparr>val = RString ''9223372036854775807'',
                                                 expiry = None\<rparr>],
                        alive = True\<rparr>,
        isConnected = True\<rparr>
     = (JNull,
        \<lparr>client = Some \<lparr>clock = 5000,
                         entries = [''hits'' \<mapsto> \<lparr>val = RString ''9223372036854775807'',
                                                  expiry = None\<rparr>],
                         alive = True\<rparr>,
         isConnected = True\<rparr>)"
proof
  let ?c = "\<lparr>clock = 5000,
             entries = [''hits'' \<mapsto> \<lparr>val = RString ''7'', expiry = Some 9000\<rparr>],
             alive = True\<rparr>"
  let ?m = "\<lparr>client = Some ?c, isConnected = True\<rparr>"
  have h: "counter_of ?c ''hits'' = Some 7"
    by (simp add: counter_of_def live_def counter_facts)
  have s: "safe_integer 2" "safe_integer 60" by (simp_all add: safe_integer_def)
  have r: "int64 (7 + 2)" "int64 (int (clock ?c) + 60 * 1000)" "safe_integer (7 + 2)"
    by (simp_all add: int64_def safe_integer_def)
  from incr_adds_and_reapplies_ttl [of ?m ?c "''hits''" 7 2 60, OF _ _ _ h s] r
  obtain c' where c': "snd (incr ''hits'' 2 60 ?m) = ?m\<lparr>client := Some c'\<rparr>"
      "fst (incr ''hits'' 2 60 ?m) = JNum (7 + 2)"
      "counter_of c' ''hits'' = Some (7 + 2)"
      "expiry_of c' ''hits'' = (if (0::int) < 60 then Some (clock ?c + nat 60 * 1000) else expiry_of ?c ''hits'')"
    by auto
  from c'(1,2) have "incr ''hits'' 2 60 ?m = (JNum 9, \<lparr>client = Some c', isConnected = True\<rparr>)"
    by (simp add: prod_eq_iff)
  moreover from c'(3) have "counter_of c' ''hits'' = Some 9" by simp
  moreover from c'(4) have "expiry_of c' ''hits'' = Some 65000" by simp
  ultimately
  show "\<exists>c'. incr ''hits'' 2 60 ?m = (JNum 9, \<lparr>client = Some c', isConnected = True\<rparr>)
       \<and> counter_of c' ''hits'' = Some 9 \<and> expiry_of c' ''hits'' = Some 65000"
    by blast
next
  let ?c = "\<lparr>clock = 5000,
             entries = [''hits'' \<mapsto> \<lparr>val = RString ''9223372036854775807'', expiry = None\<rparr>],
             alive = True\<rparr>"
  let ?m = "\<lparr>client = Some ?c, isConnected = True\<rparr>"
  have h: "counter_of ?c ''hits'' = Some 9223372036854775807"
    by (simp add: counter_of_def live_def counter_facts)
  have s: "safe_integer 1" "safe_integer 0" by (simp_all add: safe_integer_def)
  show "incr ''hits'' 1 0 ?m = (JNull, ?m)"
    using incr_adds_and_reapplies_ttl [of ?m ?c "''hits''" 9223372036854775807 1 0, OF _ _ _ h s]
    by (simp add: int64_def)
qed

text \<open>
  The claim as written returns the increased counter whenever the store is connected; at
  the largest 64-bit signed integer the store refuses the increment, and \<open>incr\<close> returns
  \<open>null\<close> and leaves the counter and its expiry as they were.
\<close>

theorem incr_overflow_counterexample:
  "counter_of \<lparr>clock = 5000,
               entries = [''hits'' \<mapsto> \<lparr>val = RString ''9223372036854775807'',
                                        expiry = Some 9000\<rparr>],
               alive = True\<rparr> ''hits'' = Some 9223372036854775807
   \<and> incr ''hits'' 1 60
       \<lparr>client = Some \<lparr>clock = 5000,
                        entries = [''hits'' \<mapsto> \<lparr>val = RString ''9223372036854775807'',
                                                 expiry = Some 9000\<rparr>],
                        alive = True\<rparr>,
        isConnected = True\<rparr>
     = (JNull,
        \<lparr>client = Some \<lparr>clock = 5000,
                         entries = [''hits'' \<mapsto> \<lparr>val = RString ''9223372036854775807'',
                                                  expiry = Some 9000\<rparr>],
                         alive = True\<rparr>,
         isConnected = True\<rparr>)"
  by (simp add: incr_def on_client_def client_incrBy_def counter_of_def live_def counter_facts
      int64_def)

section \<open>The limiter registry\<close>


lemma createLimiter_limiters:
  "limiters (snd (createLimiter options rl))
     = AList.update (or_default (opt_name options) ''default'') (fst (createLimiter options rl))
         (limiters rl)"
  by (simp add: createLimiter_def Let_def)

lemma createLimiter_redisClient:
  "redisClient (snd (createLimiter options rl)) = redisClient rl"
  by (simp add: createLimiter_def Let_def)

lemma createLimiter_config:
  "windowMs (fst (createLimiter options rl)) = or_default (opt_windowMs options) (15 * 60 * 1000)"
  "max_hits (fst (createLimiter options rl)) = or_default (opt_max options) 100"
  "keyGenerator (fst (createLimiter options rl))
     = or_default (opt_keyGenerator options) defaultKeyGenerator"
  "skipSuccessfulRequests (fst (createLimiter options rl))
     = or_default (opt_skipSuccessfulRequests options) False"
  "skipFailedRequests (fst (createLimiter options rl))
     = or_default (opt_skipFailedRequests options) False"
  "handler (fst (createLimiter options rl))
     = rate_limit_handler
         (or_default (opt_message options)
            ''Too many requests from this IP, please try again later'')
         (or_default (opt_windowMs options) (15 * 60 * 1000))"
  by (simp_all add: createLimiter_def Let_def)

lemma distinct_occurs_once:
  "distinct xs \<Longrightarrow> x \<in> set xs \<Longrightarrow> length (filter (\<lambda>y. y = x) xs) = 1"
  by (induction xs) (auto simp: filter_empty_conv)

text \<open>
  C8. Two calls of \<open>createLimiter\<close> under one name: afterwards the registry maps the
  name to the limiter of the later call, which is built from the later options alone; the
  names in the registry stay distinct and the name occurs once; every other name keeps
  its limiter. \<open>createLimiter\<close> has no failing branch.
\<close>

theorem createLimiter_last_write_wins:
  assumes "or_default (opt_name o1) ''default'' = n"
    and "or_default (opt_name o2) ''default'' = n"
    and "distinct (map fst (limiters rl))"
  shows "map_of (limiters (snd (createLimiter o2 (snd (createLimiter o1 rl))))) n
           = Some (fst (createLimiter o2 (snd (createLimiter o1 rl))))
       \<and> fst (createLimiter o2 (snd (createLimiter o1 rl))) = fst (createLimiter o2 rl)
       \<and> distinct (getLimiters (snd (createLimiter o2 (snd (createLimiter o1 rl)))))
       \<and> length (filter (\<lambda>x. x = n) (getLimiters (snd (createLimiter o2 (snd (createLimiter o1 rl)))))) = 1
       \<and> (\<forall>n'. n' \<noteq> n \<longrightarrow>
            map_of (limiters (snd (createLimiter o2 (snd (createLimiter o1 rl))))) n'
              = map_of (limiters rl) n')"
proof -
  let ?rl1 = "snd (createLimiter o1 rl)"
  let ?rl2 = "snd (createLimiter o2 ?rl1)"
  let ?l2 = "fst (createLimiter o2 ?rl1)"
  have lims: "limiters ?rl2 = AList.update n ?l2 (AList.update n (fst (createLimiter o1 rl)) (limiters rl))"
    using assms(1,2) by (simp add: createLimiter_limiters)
  have a: "map_of (limiters ?rl2) n = Some ?l2"
    by (simp add: lims update_conv')
  have b: "?l2 = fst (createLimiter o2 rl)"
    by (simp add: createLimiter_def Let_def)
  have c: "distinct (getLimiters ?rl2)"
    using assms(3) by (simp add: getLimiters_def lims distinct_update)
  have "n \<in> set (getLimiters ?rl2)"
    using a by (metis getLimiters_def map_of_eq_None_iff option.distinct(1) set_map)
  with c have d: "length (filter (\<lambda>x. x = n) (getLimiters ?rl2)) = 1"
    by (rule distinct_occurs_once)
  have e: "\<forall>n'. n' \<noteq> n \<longrightarrow> map_of (limiters ?rl2) n' = map_of (limiters rl) n'"
    by (simp add: lims update_conv')
  from a b c d e show ?thesis by blast
qed

theorem createLimiter_last_write_wins_witness:
  "map_of (limiters (snd (createLimiter (no_options\<lparr>opt_name := Some ''api'', opt_max := Some 7\<rparr>)
        (snd (createLimiter (no_options\<lparr>opt_name := Some ''api'', opt_max := Some 3\<rparr>)
              \<lparr>redisClient = None, limiters = []\<rparr>))))) ''api''
     = Some (fst (createLimiter (no_options\<lparr>opt_name := Some ''api'', opt_max := Some 7\<rparr>)
                    \<lparr>redisClient = None, limiters = []\<rparr>))
   \<and> getLimiters (snd (createLimiter (no_options\<lparr>opt_name := Some ''api'', opt_max := Some 7\<rparr>)
        (snd (createLimiter (no_options\<lparr>opt_name := Some ''api'', opt_max := Some 3\<rparr>)
              \<lparr>redisClient = None, limiters = []\<rparr>)))) = [''api'']"
proof -
  let ?o1 = "no_options\<lparr>opt_name := Some ''api'', opt_max := Some 3\<rparr>"
  let ?o2 = "no_options\<lparr>opt_name := Some ''api'', opt_max := Some 7\<rparr>"
  let ?rl = "\<lparr>redisClient = None, limiters = []\<rparr>"
  have h1: "or_default (opt_name ?o1) ''default'' = ''api''" by (simp add: or_default_def)
  have h2: "or_default (opt_name ?o2) ''default'' = ''api''" by (simp add: or_default_def)
  have h3: "distinct (map fst (limiters ?rl))" by simp
  have g: "getLimiters (snd (createLimiter ?o2 (snd (createLimiter ?o1 ?rl)))) = [''api'']"
    by (simp add: getLimiters_def createLimiter_limiters or_default_def)
  show ?thesis
    using createLimiter_last_write_wins [OF h1 h2 h3] g by simp
qed



lemma ceil_seconds_bounds: "ms \<le> 1000 * ceil_seconds ms \<and> 1000 * ceil_seconds ms < ms + 1000"
  unfolding ceil_seconds_def by arith

text \<open>
  C5, as the code has it. The handler of a limiter answers with status 429 and a body of
  exactly four members: \<open>success\<close> false, the configured message, the code
  \<open>RATE_LIMIT_EXCEEDED\<close>, and \<open>retryAfter\<close>, the window in seconds rounded up to a
  whole number (at least the window, and less than a second more).
\<close>

theorem blocked_response:
  "status (handler (fst (createLimiter options rl)) req) = 429
   \<and> body (handler (fst (createLimiter options rl)) req)
       = JObj [(''success'', JBool False),
               (''message'', JStr (or_default (opt_message options)
                                     ''Too many requests from this IP, please try again later'')),
               (''code'', JStr ''RATE_LIMIT_EXCEEDED''),
               (''retryAfter'', JNum (int (ceil_seconds (windowMs (fst (createLimiter options rl))))))]
   \<and> windowMs (fst (createLimiter options rl))
       \<le> 1000 * ceil_seconds (windowMs (fst (createLimiter options rl)))
   \<and> 1000 * ceil_seconds (windowMs (fst (createLimiter options rl)))
       < windowMs (fst (createLimiter options rl)) + 1000"
  using ceil_seconds_bounds [of "windowMs (fst (createLimiter options rl))"]
  by (simp add: createLimiter_config rate_limit_handler_def)

text \<open>
  The claim as written has \<open>retryAfter\<close> equal to the window in seconds; a window of
  1500 milliseconds gives 2.
\<close>

theorem retryAfter_rounded_counterexample:
  "retryAfterSeconds
     (handler (fst (createLimiter (no_options\<lparr>opt_windowMs := Some 1500\<rparr>)
                      \<lparr>redisClient = None, limiters = []\<rparr>))
        \<lparr>ip = ''10.0.0.1'', user = None\<rparr>) = Some (JNum 2)
   \<and> windowMs (fst (createLimiter (no_options\<lparr>opt_windowMs := Some 1500\<rparr>)
                      \<lparr>redisClient = None, limiters = []\<rparr>)) = 1500"
  by (simp add: createLimiter_config no_options_def or_default_def rate_limit_handler_def
      retryAfterSeconds_def ceil_seconds_def)

section \<open>Rate limit information\<close>

lemma client_get_keeps_client: "client_get k c = Inr (r, c') \<Longrightarrow> c' = c"
  by (auto simp: client_get_def split: if_splits option.splits rvalue.splits)

lemma getRateLimitInfo_state: "snd (getRateLimitInfo key limiterName now rl) = rl"
proof (cases "redisClient rl")
  case None
  then show ?thesis by (simp add: getRateLimitInfo_def)
next
  case (Some c)
  have "rl\<lparr>redisClient := Some c\<rparr> = rl" using Some by simp
  with Some show ?thesis
    by (auto simp: getRateLimitInfo_def Let_def split: option.splits sum.splits
        dest!: client_get_keeps_client)
qed

lemma getRateLimitInfo_fields:
  "fst (getRateLimitInfo key limiterName now rl) = None
   \<or> fst (getRateLimitInfo key limiterName now rl)
       = Some \<lparr>limit = None, remaining = None, reset = None, resetTime = None\<rparr>"
  by (auto simp: getRateLimitInfo_def Let_def middleware_property_def
      split: option.splits sum.splits)

text \<open>
  C9 does not hold of the code. \<open>getRateLimitInfo\<close> does leave the limiter registry and
  the store as they were (\<open>getRateLimitInfo_state\<close>), but whatever it is asked, it returns
  null or a record without a ceiling, a remaining allowance or a reset time
  (\<open>getRateLimitInfo_fields\<close>), and never the current count. Here the \<open>auth\<close> limiter is
  registered with a ceiling of 5 and a window of 15 minutes, the store is connected and
  the counter of the key stands at 3: the record returned has \<open>undefined\<close> for the
  ceiling, \<open>NaN\<close> for the remaining allowance and for the reset time in seconds, and the
  invalid date for the reset time.
\<close>

theorem getRateLimitInfo_undefined_fields:
  "map_option max_hits (map_of (limiters (snd (createAuthLimiter
        \<lparr>redisClient = Some \<lparr>clock = 0,
            entries = [''auth:10.0.0.1'' \<mapsto> \<lparr>val = RString ''3'', expiry = Some 10000\<rparr>],
            alive = True\<rparr>,
         limiters = []\<rparr>))) ''auth'') = Some 5
   \<and> map_option windowMs (map_of (limiters (snd (createAuthLimiter
        \<lparr>redisClient = Some \<lparr>clock = 0,
            entries = [''auth:10.0.0.1'' \<mapsto> \<lparr>val = RString ''3'', expiry = Some 10000\<rparr>],
            alive = True\<rparr>,
         limiters = []\<rparr>))) ''auth'') = Some 900000
   \<and> client_get ''auth:10.0.0.1''
        \<lparr>clock = 0,
         entries = [''auth:10.0.0.1'' \<mapsto> \<lparr>val = RString ''3'', expiry = Some 10000\<rparr>],
         alive = True\<rparr>
       = Inr (Some ''3'',
              \<lparr>clock = 0,
               entries = [''auth:10.0.0.1'' \<mapsto> \<lparr>val = RString ''3'', expiry = Some 10000\<rparr>],
               alive = True\<rparr>)
   \<and> getRateLimitInfo ''10.0.0.1'' ''auth'' 1000
       (snd (createAuthLimiter
          \<lparr>redisClient = Some \<lparr>clock = 0,
              entries = [''auth:10.0.0.1'' \<mapsto> \<lparr>val = RString ''3'', expiry = Some 10000\<rparr>],
              alive = True\<rparr>,
           limiters = []\<rparr>))
     = (Some \<lparr>limit = None, remaining = None, reset = None, resetTime = None\<rparr>,
        snd (createAuthLimiter
          \<lparr>redisClient = Some \<lparr>clock = 0,
              entries = [''auth:10.0.0.1'' \<mapsto> \<lparr>val = RString ''3'', expiry = Some 10000\<rparr>],
              alive = True\<rparr>,
           limiters = []\<rparr>))"
  by (simp add: getRateLimitInfo_def createAuthLimiter_def createLimiter_def Let_def
      no_options_def or_default_def client_get_def live_def middleware_property_def)

section \<open>Counting requests in a window\<close>












end
